theory Spec2Isabelle
  imports Main
begin

section \<open>Tensors and channel-axis concatenation\<close>

text \<open>
  The frames handled by \<^verbatim>\<open>all/bodies/vision.py\<close> are torch tensors. A tensor is
  modelled by its shape and its elements in row-major order; the element type is left
  open (dtype promotion and devices are not modelled). The frame stack never writes
  into a tensor, so tensors are values here; the Python lists that hold them are
  objects in a store (see below).
\<close>

datatype error = RuntimeError | IndexError | TypeError

record 'a tensor =
  shape :: "nat list"
  data :: "'a list"

definition valid_tensor :: "'a tensor \<Rightarrow> bool" where
  "valid_tensor t = (length (data t) = prod_list (shape t))"

text \<open>\<^verbatim>\<open>len(t)\<close> of a tensor: the size of dimension 0; a 0-d tensor has no length.\<close>

definition tensor_len :: "'a tensor \<Rightarrow> error + nat" where
  "tensor_len t = (case shape t of [] \<Rightarrow> Inl TypeError | n # _ \<Rightarrow> Inr n)"

text \<open>
  The elements of \<open>t\<close> that belong to index \<open>b\<close> of dimension 0: a run of
  \<open>prod_list (tl (shape t))\<close> consecutive elements.
\<close>

definition block :: "'a tensor \<Rightarrow> nat \<Rightarrow> 'a list" where
  "block t b = (let k = prod_list (tl (shape t)) in take k (drop (b * k) (data t)))"

text \<open>
  \<^verbatim>\<open>torch.cat(ts, dim=1)\<close>, library code outside the repository, after its documented
  contract: the list must not be empty, no tensor may be 0-dimensional, 1-D tensors of
  shape \<open>(0,)\<close> are skipped, the remaining tensors need a dimension 1 and must agree
  in every other dimension; the result has the sizes of dimension 1 added up and, per
  index of dimension 0, the elements of the inputs one after the other.
\<close>

definition torch_cat :: "'a tensor list \<Rightarrow> error + 'a tensor" where
  "torch_cat ts =
     (if ts = [] then Inl RuntimeError
      else if \<exists>t \<in> set ts. shape t = [] then Inl RuntimeError
      else case filter (\<lambda>t. shape t \<noteq> [0]) ts of
          [] \<Rightarrow> Inr \<lparr>shape = [0], data = []\<rparr>
        | v # vs \<Rightarrow>
            if length (shape v) < 2 then Inl IndexError
            else if \<exists>t \<in> set vs. (shape t)[1 := 0] \<noteq> (shape v)[1 := 0] then Inl RuntimeError
            else Inr \<lparr>shape = (shape v)[1 := sum_list (map (\<lambda>t. shape t ! 1) (v # vs))],
                      data = concat (map (\<lambda>b. concat (map (\<lambda>t. block t b) (v # vs)))
                                         [0..<hd (shape v)])\<rparr>)"

section \<open>States\<close>

text \<open>
  Modelled from the spec: the class \<^verbatim>\<open>State\<close> of \<^verbatim>\<open>all.environments\<close> is not among
  the sources. The spec describes a state as the triple of \<^verbatim>\<open>raw\<close>, \<^verbatim>\<open>mask\<close> and
  \<^verbatim>\<open>info\<close>, with mask and info opaque to the frame stack; its constructor stores the
  three arguments and the properties of the same names read them back.
\<close>

record ('a, 'm, 'i) state =
  raw :: "'a tensor"
  mask :: 'm
  info :: 'i

text \<open>
  Python lists are mutable objects. The store holds every list object the frame stack
  creates; an address is an index into the store and allocation appends.
\<close>

type_synonym addr = nat
type_synonym 'a store = "'a tensor list list"

definition alloc :: "'a store \<Rightarrow> 'a tensor list \<Rightarrow> 'a store \<times> addr" where
  "alloc h xs = (h @ [xs], length h)"

text \<open>
  The state handed to the wrapped agent: a \<^verbatim>\<open>State\<close> whose raw is the concatenated
  tensor, or a \<^verbatim>\<open>LazyState\<close> whose raw is a reference to a list of frames.
\<close>

datatype ('a, 'm, 'i) composite =
    State "('a, 'm, 'i) state"
  | LazyState addr 'm 'i

text \<open>
  Modelled from the spec: the properties \<^verbatim>\<open>mask\<close> and \<^verbatim>\<open>info\<close> that
  \<^verbatim>\<open>LazyState\<close> inherits from \<^verbatim>\<open>State\<close> return what the constructor was given.
\<close>

fun mask_of :: "('a, 'm, 'i) composite \<Rightarrow> 'm" where
  "mask_of (State s) = mask s"
| "mask_of (LazyState a m i) = m"

fun info_of :: "('a, 'm, 'i) composite \<Rightarrow> 'i" where
  "info_of (State s) = info s"
| "info_of (LazyState a m i) = i"

text \<open>\<^verbatim>\<open>LazyState.features\<close>: \<^verbatim>\<open>torch.cat(self._raw, dim=1)\<close>, read through the store.\<close>

definition LazyState_features :: "'a store \<Rightarrow> addr \<Rightarrow> error + 'a tensor" where
  "LazyState_features h a = torch_cat (h ! a)"

text \<open>\<^verbatim>\<open>LazyState.__len__\<close>: \<^verbatim>\<open>len(self._raw[0])\<close>; indexing an empty list raises.\<close>

definition LazyState_len :: "'a store \<Rightarrow> addr \<Rightarrow> error + nat" where
  "LazyState_len h a = (case h ! a of [] \<Rightarrow> Inl IndexError | f # _ \<Rightarrow> tensor_len f)"

text \<open>
  Modelled from the spec: \<^verbatim>\<open>State.features\<close> and \<^verbatim>\<open>State.__len__\<close> are not among
  the sources. The spec has the eager state hold the materialised tensor as its
  features and report the batch-dimension size as its length.
\<close>

definition State_features :: "('a, 'm, 'i) state \<Rightarrow> error + 'a tensor" where
  "State_features s = Inr (raw s)"

definition State_len :: "('a, 'm, 'i) state \<Rightarrow> error + nat" where
  "State_len s = tensor_len (raw s)"

fun features :: "'a store \<Rightarrow> ('a, 'm, 'i) composite \<Rightarrow> error + 'a tensor" where
  "features h (State s) = State_features s"
| "features h (LazyState a m i) = LazyState_features h a"

fun len :: "'a store \<Rightarrow> ('a, 'm, 'i) composite \<Rightarrow> error + nat" where
  "len h (State s) = State_len s"
| "len h (LazyState a m i) = LazyState_len h a"

section \<open>FrameStack\<close>

text \<open>
  The fields of a \<^verbatim>\<open>FrameStack\<close> object. \<^verbatim>\<open>_frames\<close> is a reference to a list in the
  store, \<^verbatim>\<open>_size\<close> is a Python integer and may be zero or negative.
  Modelled from the spec: \<^verbatim>\<open>Body.__init__\<close> (\<^verbatim>\<open>all/bodies/_body.py\<close>, not among the
  sources) keeps the wrapped agent in \<^verbatim>\<open>self.agent\<close>.
\<close>

record 'g FrameStack =
  agent :: 'g
  frames :: addr
  size_f :: int
  lazy :: bool

text \<open>
  \<^verbatim>\<open>FrameStack.__init__\<close>: it allocates the empty list and stores its arguments. The
  source raises nowhere, so the only result is \<open>Inr\<close>.
\<close>

definition FrameStack_init ::
  "'a store \<Rightarrow> 'g \<Rightarrow> int \<Rightarrow> bool \<Rightarrow> error + ('a store \<times> 'g FrameStack)" where
  "FrameStack_init h g n lz =
     (let (h', a) = alloc h [] in
      Inr (h', \<lparr>agent = g, frames = a, size_f = n, lazy = lz\<rparr>))"

text \<open>
  Lines 13 to 21 of \<^verbatim>\<open>FrameStack.act\<close>: the window update and the construction of
  the composite state. Both branches of the update build a new list (\<^verbatim>\<open>[x] * n\<close>,
  and a slice plus a list) and rebind \<^verbatim>\<open>self._frames\<close> to it before anything can
  raise. \<^verbatim>\<open>[x] * n\<close> is empty for \<open>n \<le> 0\<close>. The lazy state receives the reference
  held in \<^verbatim>\<open>self._frames\<close>, the eager one the concatenated tensor.
\<close>

definition act_state ::
  "'a store \<Rightarrow> 'g FrameStack \<Rightarrow> ('a, 'm, 'i) state \<Rightarrow>
     'a store \<times> 'g FrameStack \<times> (error + ('a, 'm, 'i) composite)" where
  "act_state h self st =
     (let (h', a) = alloc h (if h ! frames self = []
                             then replicate (nat (size_f self)) (raw st)
                             else tl (h ! frames self) @ [raw st]);
          self' = self\<lparr>frames := a\<rparr>
      in if lazy self'
         then (h', self', Inr (LazyState (frames self') (mask st) (info st)))
         else case torch_cat (h' ! frames self') of
                Inl e \<Rightarrow> (h', self', Inl e)
              | Inr t \<Rightarrow> (h', self', Inr (State \<lparr>raw = t, mask = mask st, info = info st\<rparr>)))"

text \<open>
  \<^verbatim>\<open>FrameStack.act\<close>. The wrapped agent is any object with an \<^verbatim>\<open>act\<close> method; its
  method is the parameter \<open>agent_act\<close>, which reads the store, sees the composite
  state and the reward, and returns the agent's next state with the value it returns.
  An exception of the concatenation leaves before the agent is called.
\<close>

definition act ::
  "('g \<Rightarrow> 'a store \<Rightarrow> ('a, 'm, 'i) composite \<Rightarrow> 'r \<Rightarrow> 'g \<times> 'x) \<Rightarrow>
     'a store \<Rightarrow> 'g FrameStack \<Rightarrow> ('a, 'm, 'i) state \<Rightarrow> 'r \<Rightarrow>
     'a store \<times> 'g FrameStack \<times> (error + 'x)" where
  "act agent_act h self st reward =
     (case act_state h self st of
        (h', self', Inl e) \<Rightarrow> (h', self', Inl e)
      | (h', self', Inr c) \<Rightarrow>
          (let (g', x) = agent_act (agent self') h' c reward
           in (h', self'\<lparr>agent := g'\<rparr>, Inr x)))"

text \<open>A sequence of \<^verbatim>\<open>act\<close> calls, one per environment step, whatever each returned.\<close>

fun run ::
  "('g \<Rightarrow> 'a store \<Rightarrow> ('a, 'm, 'i) composite \<Rightarrow> 'r \<Rightarrow> 'g \<times> 'x) \<Rightarrow>
     'a store \<times> 'g FrameStack \<Rightarrow> (('a, 'm, 'i) state \<times> 'r) list \<Rightarrow>
     'a store \<times> 'g FrameStack" where
  "run agent_act c [] = c"
| "run agent_act c (x # xs) =
     (case act agent_act (fst c) (snd c) (fst x) (snd x) of
        (h', self', _) \<Rightarrow> run agent_act (h', self') xs)"

text \<open>The window: the list object that \<^verbatim>\<open>self._frames\<close> refers to.\<close>

definition window :: "'a store \<times> 'g FrameStack \<Rightarrow> 'a tensor list" where
  "window c = fst c ! frames (snd c)"

text \<open>
  One step of the window as a function of its contents: lines 13 to 16 without the
  store.
\<close>

definition slide :: "int \<Rightarrow> 'b list \<Rightarrow> 'b \<Rightarrow> 'b list" where
  "slide n w x = (if w = [] then replicate (nat n) x else tl w @ [x])"

text \<open>
  The window after a sequence of observations, starting from the empty list that
  \<^verbatim>\<open>__init__\<close> leaves.
\<close>

definition windows :: "int \<Rightarrow> 'b list \<Rightarrow> 'b list" where
  "windows n xs = foldl (slide n) [] xs"

text \<open>
  What the wrapped agent reads when it asks the composite state of a call for its
  features: the stacked tensor, or the exception that ended the call or the read.
\<close>

definition stacked ::
  "'a store \<times> 'g FrameStack \<Rightarrow> ('a, 'm, 'i) state \<Rightarrow> error + 'a tensor" where
  "stacked c st =
     (case act_state (fst c) (snd c) st of
        (h', self', Inl e) \<Rightarrow> Inl e
      | (h', self', Inr s) \<Rightarrow> features h' s)"

section \<open>Concrete inputs\<close>

text \<open>
  A frame with a batch of two samples and one channel, an input state around it, and a
  stub agent that records what it is given and returns a fixed action.
\<close>

definition frame :: "int \<Rightarrow> int tensor" where
  "frame k = \<lparr>shape = [2, 1], data = [k, k + 10]\<rparr>"

definition obs :: "int \<Rightarrow> int \<Rightarrow> string \<Rightarrow> (int, int, string) state" where
  "obs k m i = \<lparr>raw = frame k, mask = m, info = i\<rparr>"

definition recorder ::
  "((int, int, string) composite \<times> int) list \<Rightarrow> int store \<Rightarrow> (int, int, string) composite \<Rightarrow>
     int \<Rightarrow> ((int, int, string) composite \<times> int) list \<times> nat" where
  "recorder g h c r = (g @ [(c, r)], 42)"

definition fresh ::
  "int \<Rightarrow> bool \<Rightarrow> int store \<times> ((int, int, string) composite \<times> int) list FrameStack" where
  "fresh n lz = ([[]], \<lparr>agent = [], frames = 0, size_f = n, lazy = lz\<rparr>)"

text \<open>
  Frames of other shapes: a 1-D tensor of shape \<open>(0,)\<close>, a frame with a batch of
  three samples, and an input state around any tensor.
\<close>

definition empty_frame :: "int tensor" where
  "empty_frame = \<lparr>shape = [0], data = []\<rparr>"

definition frame3 :: "int \<Rightarrow> int tensor" where
  "frame3 k = \<lparr>shape = [3, 1], data = [k, k + 10, k + 20]\<rparr>"

definition obs_of :: "int tensor \<Rightarrow> int \<Rightarrow> string \<Rightarrow> (int, int, string) state" where
  "obs_of t m i = \<lparr>raw = t, mask = m, info = i\<rparr>"

section \<open>The effect of one call and of a sequence of calls\<close>

declare run.simps(2) [simp del]

lemma act_state_store:
  "fst (act_state h self st) = h @ [slide (size_f self) (h ! frames self) (raw st)]"
  by (simp add: act_state_def alloc_def slide_def Let_def split: sum.splits)

lemma act_state_self:
  "fst (snd (act_state h self st)) = self\<lparr>frames := length h\<rparr>"
  by (simp add: act_state_def alloc_def Let_def split: sum.splits)

lemma act_store:
  "fst (act ag h self st r) = fst (act_state h self st)"
  by (simp add: act_def split: prod.splits sum.splits)

lemma act_self:
  "fst (snd (act ag h self st r)) =
     (fst (snd (act_state h self st)))\<lparr>agent := agent (fst (snd (act ag h self st r)))\<rparr>"
  by (simp add: act_def split: prod.splits sum.splits)

lemma window_act:
  "window (fst (act ag h self st r), fst (snd (act ag h self st r))) =
     slide (size_f self) (window (h, self)) (raw st)"
  by (subst act_self) (simp add: window_def act_store act_state_store act_state_self)

lemma size_act: "size_f (fst (snd (act ag h self st r))) = size_f self"
  by (subst act_self) (simp add: act_state_self)

lemma lazy_act: "lazy (fst (snd (act ag h self st r))) = lazy self"
  by (subst act_self) (simp add: act_state_self)

lemma run_step:
  "run ag c (x # xs) =
     run ag (fst (act ag (fst c) (snd c) (fst x) (snd x)),
             fst (snd (act ag (fst c) (snd c) (fst x) (snd x)))) xs"
  by (simp add: run.simps(2) split: prod.splits)

lemma run_append: "run ag c (xs @ ys) = run ag (run ag c xs) ys"
  by (induction xs arbitrary: c) (simp_all add: run_step)

lemma size_run: "size_f (snd (run ag c ins)) = size_f (snd c)"
  by (induction ins arbitrary: c) (simp_all only: run.simps(1) run_step size_act snd_conv)

lemma lazy_run: "lazy (snd (run ag c ins)) = lazy (snd c)"
  by (induction ins arbitrary: c) (simp_all only: run.simps(1) run_step lazy_act snd_conv)

lemma window_run:
  "window (run ag c ins) =
     foldl (slide (size_f (snd c))) (window c) (map (\<lambda>x. raw (fst x)) ins)"
proof (induction ins arbitrary: c)
  case Nil
  show ?case by simp
next
  case (Cons x xs)
  have "window (run ag c (x # xs)) =
          foldl (slide (size_f (snd c))) (slide (size_f (snd c)) (window c) (raw (fst x)))
            (map (\<lambda>x. raw (fst x)) xs)"
    by (simp only: run_step Cons.IH window_act size_act snd_conv prod.collapse)
  then show ?case by simp
qed

lemma foldl_slide_full:
  "w \<noteq> [] \<Longrightarrow> foldl (slide n) w xs = drop (length xs) (w @ xs)"
proof (induction xs arbitrary: w)
  case Nil
  then show ?case by simp
next
  case (Cons x xs)
  have "foldl (slide n) w (x # xs) = foldl (slide n) (tl w @ [x]) xs"
    using Cons.prems by (simp add: slide_def)
  also have "\<dots> = drop (length xs) ((tl w @ [x]) @ xs)"
    by (rule Cons.IH) simp
  also have "\<dots> = drop (length (x # xs)) (w @ x # xs)"
    using Cons.prems by (cases w) simp_all
  finally show ?case .
qed

lemma init_window:
  "FrameStack_init h g n lz = Inr c0 \<Longrightarrow>
     window c0 = [] \<and> size_f (snd c0) = n \<and> lazy (snd c0) = lz"
  by (auto simp: FrameStack_init_def alloc_def window_def)

lemma init_fresh: "FrameStack_init [] [] n lz = Inr (fresh n lz)"
  by (simp add: FrameStack_init_def alloc_def fresh_def)

lemma window_from_init:
  assumes "1 \<le> n" and "FrameStack_init h g n lz = Inr c0"
  shows "window (run ag c0 ((sa, ra) # ins)) =
           drop (length ins) (replicate (nat n) (raw sa) @ map (\<lambda>x. raw (fst x)) ins)"
proof -
  from assms(2) have w0: "window c0 = []" and sz: "size_f (snd c0) = n"
    by (simp_all add: init_window)
  have ne: "replicate (nat n) (raw sa) \<noteq> []" using assms(1) by simp
  have "window (run ag c0 ((sa, ra) # ins)) =
          foldl (slide n) (replicate (nat n) (raw sa)) (map (\<lambda>x. raw (fst x)) ins)"
    by (simp add: window_run w0 sz slide_def)
  also have "\<dots> = drop (length (map (\<lambda>x. raw (fst x)) ins))
                     (replicate (nat n) (raw sa) @ map (\<lambda>x. raw (fst x)) ins)"
    by (rule foldl_slide_full [OF ne])
  finally show ?thesis by simp
qed

section \<open>Steps, stores and concatenation\<close>

lemma act_state_result:
  "snd (snd (act_state h self st)) =
     (if lazy self then Inr (LazyState (length h) (mask st) (info st))
      else case torch_cat (slide (size_f self) (h ! frames self) (raw st)) of
             Inl e \<Rightarrow> Inl e
           | Inr t \<Rightarrow> Inr (State \<lparr>raw = t, mask = mask st, info = info st\<rparr>))"
  by (simp add: act_state_def alloc_def slide_def Let_def split: sum.splits)

lemma act_state_window:
  "fst (act_state h self st) ! length h = slide (size_f self) (window (h, self)) (raw st)"
  by (simp add: act_state_store window_def)

lemma store_run_step_old:
  "a < length h \<Longrightarrow> fst (act ag h self st r) ! a = h ! a"
  by (simp add: act_store act_state_store nth_append)

lemma length_store_act: "length (fst (act ag h self st r)) = Suc (length h)"
  by (simp add: act_store act_state_store)

lemma frames_act: "frames (fst (snd (act ag h self st r))) = length h"
  by (subst act_self) (simp add: act_state_self)

lemma agent_act_state: "agent (fst (snd (act_state h self st))) = agent self"
  by (simp add: act_state_self)

lemma act_result:
  "snd (snd (act ag h self st r)) =
     (case snd (snd (act_state h self st)) of
        Inl e \<Rightarrow> Inl e
      | Inr c \<Rightarrow> Inr (snd (ag (agent self) (fst (act_state h self st)) c r)))"
  by (cases "act_state h self st")
     (auto simp: act_def act_state_self split: sum.splits prod.splits
           dest: arg_cong [where f = "\<lambda>x. agent (fst (snd x))"])

lemma act_agent:
  "agent (fst (snd (act ag h self st r))) =
     (case snd (snd (act_state h self st)) of
        Inl e \<Rightarrow> agent self
      | Inr c \<Rightarrow> fst (ag (agent self) (fst (act_state h self st)) c r))"
  by (cases "act_state h self st")
     (auto simp: act_def act_state_self split: sum.splits prod.splits
           dest: arg_cong [where f = "\<lambda>x. agent (fst (snd x))"])

lemma concat_blocks:
  "concat (map (\<lambda>b. take k (drop (b * k) xs)) [0..<m]) = take (m * k) xs"
proof (induction m)
  case 0
  show ?case by simp
next
  case (Suc m)
  have "take (m * k) xs @ take k (drop (m * k) xs) = take (m * k + k) xs"
    by (simp add: take_add)
  then show ?case using Suc by (simp add: add.commute)
qed

lemma prod_list_hd_tl: "s \<noteq> [] \<Longrightarrow> prod_list s = hd s * prod_list (tl s)"
  by (cases s) simp_all

lemma torch_cat_single:
  assumes "valid_tensor x" and "2 \<le> length (shape x)"
  shows "torch_cat [x] = Inr x"
proof -
  from assms(2) have ne: "shape x \<noteq> []" and n0: "shape x \<noteq> [0]" by auto
  have len: "length (data x) = hd (shape x) * prod_list (tl (shape x))"
    using assms(1) ne by (simp add: valid_tensor_def prod_list_hd_tl)
  have d: "concat (map (\<lambda>b. concat (map (\<lambda>t. block t b) [x])) [0..<hd (shape x)]) = data x"
    by (simp add: block_def Let_def concat_blocks len)
  have s: "(shape x)[1 := sum_list (map (\<lambda>t. shape t ! 1) [x])] = shape x"
    by simp
  have "torch_cat [x] =
          Inr \<lparr>shape = (shape x)[1 := sum_list (map (\<lambda>t. shape t ! 1) [x])],
               data = concat (map (\<lambda>b. concat (map (\<lambda>t. block t b) [x])) [0..<hd (shape x)])\<rparr>"
    using assms(2) ne n0 by (simp add: torch_cat_def)
  then show ?thesis by (simp only: d s) simp
qed

lemma torch_cat_single_ok:
  assumes "valid_tensor x" and "torch_cat [x] = Inr t"
  shows "t = x"
proof (cases "shape x = [0]")
  case True
  then have "data x = []" using assms(1) by (simp add: valid_tensor_def)
  with True assms(2) show ?thesis by (cases x) (auto simp: torch_cat_def)
next
  case False
  with assms(2) have "2 \<le> length (shape x)"
    by (auto simp: torch_cat_def split: if_splits)
  with assms show ?thesis by (simp add: torch_cat_single)
qed

lemma torch_cat_same_shape:
  assumes "ts \<noteq> []" and "\<forall>t \<in> set ts. shape t = s" and "2 \<le> length s"
  shows "\<exists>t. torch_cat ts = Inr t \<and> shape t = s[1 := length ts * (s ! 1)]"
proof -
  from assms(3) have s0: "s \<noteq> [0]" and sn: "s \<noteq> []" by auto
  from assms(1) obtain v vs where ts: "ts = v # vs" by (cases ts) auto
  have f: "filter (\<lambda>t. shape t \<noteq> [0]) ts = ts"
    using assms(2) s0 by (simp add: filter_id_conv)
  have sm: "sum_list (map (\<lambda>t. shape t ! 1) ts) = length ts * (s ! 1)"
    using assms(2) by (induction ts) simp_all
  have ne: "\<not> (\<exists>t \<in> set ts. shape t = [])" using assms(2) sn by auto
  have sv: "shape v = s" using assms(2) ts by simp
  have eq: "\<not> (\<exists>t \<in> set vs. (shape t)[1 := 0] \<noteq> (shape v)[1 := 0])"
    using assms(2) ts by simp
  have "torch_cat ts =
          Inr \<lparr>shape = (shape v)[1 := sum_list (map (\<lambda>t. shape t ! 1) ts)],
               data = concat (map (\<lambda>b. concat (map (\<lambda>t. block t b) ts)) [0..<hd (shape v)])\<rparr>"
    unfolding torch_cat_def f using assms(1) ne eq assms(3) sv
    by (simp add: ts)
  then show ?thesis using sm by (simp add: sv)
qed

lemma torch_cat_len:
  assumes "torch_cat ts = Inr t" and "\<forall>x \<in> set ts. shape x = s" and "s \<noteq> []"
  shows "tensor_len t = Inr (hd s)"
proof (cases "s = [0]")
  case True
  from assms(1) have "ts \<noteq> []" by (auto simp: torch_cat_def)
  have "filter (\<lambda>t. shape t \<noteq> [0]) ts = []"
    using assms(2) True by (simp add: filter_empty_conv)
  with assms(1) True show ?thesis
    by (auto simp: torch_cat_def tensor_len_def split: if_splits)
next
  case False
  from assms(1) have ne: "ts \<noteq> []" by (auto simp: torch_cat_def)
  have f: "filter (\<lambda>t. shape t \<noteq> [0]) ts = ts"
    using assms(2) False by (simp add: filter_id_conv)
  from ne obtain v vs where ts: "ts = v # vs" by (cases ts) auto
  have sv: "shape v = s" using assms(2) ts by simp
  from assms(1) have "2 \<le> length s \<and> shape t = s[1 := sum_list (map (\<lambda>t. shape t ! 1) ts)]"
    unfolding torch_cat_def f using sv
    by (auto simp: ts split: if_splits)
  then show ?thesis
    using assms(3) by (cases s) (auto simp: tensor_len_def split: list.splits nat.splits)
qed


lemma window_run_init:
  assumes "FrameStack_init h g n lz = Inr c0"
  shows "window (run ag c0 ins) = windows n (map (\<lambda>x. raw (fst x)) ins)"
  using init_window [OF assms] by (simp add: window_run windows_def)

lemma windows_snoc: "windows n (xs @ [x]) = slide n (windows n xs) x"
  by (simp add: windows_def)

lemma step_result:
  assumes "FrameStack_init h g n lz = Inr c0"
  shows "snd (snd (act_state (fst (run ag c0 ins)) (snd (run ag c0 ins)) st)) =
           (if lz then Inr (LazyState (length (fst (run ag c0 ins))) (mask st) (info st))
            else case torch_cat (windows n (map (\<lambda>x. raw (fst x)) ins @ [raw st])) of
                   Inl e \<Rightarrow> Inl e
                 | Inr t \<Rightarrow> Inr (State \<lparr>raw = t, mask = mask st, info = info st\<rparr>))"
proof -
  have l: "lazy (snd (run ag c0 ins)) = lz" and s: "size_f (snd (run ag c0 ins)) = n"
    using init_window [OF assms] by (simp_all add: lazy_run size_run)
  have w: "fst (run ag c0 ins) ! frames (snd (run ag c0 ins)) =
             windows n (map (\<lambda>x. raw (fst x)) ins)"
    using window_run_init [OF assms, of ag ins] by (simp add: window_def)
  show ?thesis
    by (simp only: act_state_result l s w windows_snoc)
qed

lemma step_store:
  assumes "FrameStack_init h g n lz = Inr c0"
  shows "fst (act_state (fst (run ag c0 ins)) (snd (run ag c0 ins)) st)
           ! length (fst (run ag c0 ins)) =
         windows n (map (\<lambda>x. raw (fst x)) ins @ [raw st])"
proof -
  have "window (run ag c0 ins) = windows n (map (\<lambda>x. raw (fst x)) ins)"
    by (rule window_run_init [OF assms])
  moreover have "size_f (snd (run ag c0 ins)) = n"
    using init_window [OF assms] by (simp add: size_run)
  ultimately show ?thesis
    by (simp add: act_state_store windows_snoc window_def)
qed

lemma stacked_run:
  assumes "FrameStack_init h g n lz = Inr c0"
  shows "stacked (run ag c0 ins) st = torch_cat (windows n (map (\<lambda>x. raw (fst x)) ins @ [raw st]))"
proof -
  obtain h' self' res where a:
    "act_state (fst (run ag c0 ins)) (snd (run ag c0 ins)) st = (h', self', res)"
    by (cases "act_state (fst (run ag c0 ins)) (snd (run ag c0 ins)) st") auto
  have r: "res = (if lz then Inr (LazyState (length (fst (run ag c0 ins))) (mask st) (info st))
            else case torch_cat (windows n (map (\<lambda>x. raw (fst x)) ins @ [raw st])) of
                   Inl e \<Rightarrow> Inl e
                 | Inr t \<Rightarrow> Inr (State \<lparr>raw = t, mask = mask st, info = info st\<rparr>))"
    using step_result [OF assms, of ag ins st] a by simp
  have s: "h' ! length (fst (run ag c0 ins)) = windows n (map (\<lambda>x. raw (fst x)) ins @ [raw st])"
    using step_store [OF assms, of ag ins st] a by simp
  show ?thesis
    unfolding stacked_def a using r s
    by (auto simp: LazyState_features_def State_features_def split: sum.splits)
qed

lemma windows_length_inv: "windows n xs = [] \<or> length (windows n xs) = nat n"
proof (induction xs rule: rev_induct)
  case Nil
  show ?case by (simp add: windows_def)
next
  case (snoc x xs)
  then show ?case
    by (cases "windows n xs") (auto simp: windows_snoc slide_def)
qed

lemma windows_length: "xs \<noteq> [] \<Longrightarrow> length (windows n xs) = nat n"
proof (induction xs rule: rev_induct)
  case Nil
  then show ?case by simp
next
  case (snoc x xs)
  show ?case
    using windows_length_inv [of n xs]
    by (cases "windows n xs") (auto simp: windows_snoc slide_def)
qed

lemma windows_set: "set (windows n xs) \<subseteq> set xs"
proof (induction xs rule: rev_induct)
  case Nil
  show ?case by (simp add: windows_def)
next
  case (snoc x xs)
  have "set (tl (windows n xs)) \<subseteq> set (windows n xs)"
    by (cases "windows n xs") auto
  with snoc show ?case
    by (auto simp: windows_snoc slide_def)
qed


lemma windows_one: "windows 1 (xs @ [x]) = [x]"
proof (cases "xs = []")
  case True
  then show ?thesis by (simp add: windows_def slide_def)
next
  case False
  then have "length (windows 1 xs) = 1" by (simp add: windows_length)
  then show ?thesis
    by (cases "windows 1 xs") (auto simp: windows_snoc slide_def)
qed

lemma store_run_old: "a < length (fst c) \<Longrightarrow> fst (run ag c ins) ! a = fst c ! a"
proof (induction ins arbitrary: c)
  case Nil
  show ?case by simp
next
  case (Cons x xs)
  have "a < length (fst (act ag (fst c) (snd c) (fst x) (snd x)))"
    using Cons.prems by (simp add: length_store_act)
  then show ?case
    using Cons.prems by (simp add: run_step Cons.IH store_run_step_old)
qed

lemma features_after_run:
  "a < length (fst c) \<Longrightarrow>
     features (fst (run ag c ins)) (LazyState a m i) = features (fst c) (LazyState a m i)"
  by (simp add: LazyState_features_def store_run_old)

lemma obs_sel [simp]: "raw (obs k m i) = frame k" "mask (obs k m i) = m" "info (obs k m i) = i"
  by (simp_all add: obs_def)

lemma frame_shape [simp]: "shape (frame k) = [2, 1]"
  by (simp add: frame_def)

lemma frame_valid [simp]: "valid_tensor (frame k)"
  by (simp add: frame_def valid_tensor_def)

lemmas ev = run_step run.simps(1) act_def act_state_def alloc_def recorder_def fresh_def obs_def
  frame_def torch_cat_def block_def Let_def LazyState_features_def LazyState_len_def
  State_features_def State_len_def tensor_len_def stacked_def window_def slide_def
  valid_tensor_def numeral_2_eq_2

lemma torch_cat_len_first:
  assumes "torch_cat ts = Inr t" and "\<forall>f \<in> set ts. shape f \<noteq> [0]"
  shows "tensor_len t = tensor_len (hd ts)"
proof -
  from assms(1) have ne: "ts \<noteq> []" by (auto simp: torch_cat_def)
  have f: "filter (\<lambda>t. shape t \<noteq> [0]) ts = ts"
    using assms(2) by (simp add: filter_id_conv)
  from ne obtain v vs where ts: "ts = v # vs" by (cases ts) auto
  from assms(1) have "2 \<le> length (shape v) \<and>
      shape t = (shape v)[1 := sum_list (map (\<lambda>t. shape t ! 1) ts)]"
    unfolding torch_cat_def f by (auto simp: ts split: if_splits)
  then show ?thesis
    by (cases "shape v") (auto simp: ts tensor_len_def split: list.splits nat.splits)
qed

lemma window_run_snoc:
  assumes "FrameStack_init h g n lz = Inr c0"
  shows "window (run ag c0 (ins @ [(st, r)])) = windows n (map (\<lambda>x. raw (fst x)) ins @ [raw st])"
  by (simp add: window_run_init [OF assms])

lemmas ev2 = ev empty_frame_def frame3_def obs_of_def

section \<open>The sliding window\<close>

text \<open>
  C1. For a window size of at least 1 and any sequence of calls with raw observations
  \<open>o1, o2, ..., ok\<close>, in either mode and whatever the calls returned, the window
  after the last call is the last \<open>size\<close> elements of \<open>size\<close> copies of \<open>o1\<close>
  followed by \<open>o2, ..., ok\<close>. The first call leaves \<open>size\<close> copies of \<open>o1\<close>; a
  later call drops the oldest frame and appends the new one.
\<close>

theorem window_last_size:
  assumes "1 \<le> n" and "FrameStack_init h g n lz = Inr c0"
  shows "window (run ag c0 ((sa, ra) # ins)) =
           (let s = replicate (nat n) (raw sa) @ map (\<lambda>x. raw (fst x)) ins
            in drop (length s - nat n) s)
         \<and> window (run ag c0 [(sa, ra)]) = replicate (nat n) (raw sa)
         \<and> window (run ag c0 (((sa, ra) # ins) @ [(st, r)])) =
             tl (window (run ag c0 ((sa, ra) # ins))) @ [raw st]"
proof -
  have a: "window (run ag c0 ((sa, ra) # ins)) =
             drop (length ins) (replicate (nat n) (raw sa) @ map (\<lambda>x. raw (fst x)) ins)"
    for ins
    by (rule window_from_init [OF assms])
  have "length (window (run ag c0 ((sa, ra) # ins))) = nat n"
    by (simp add: a)
  then have ne: "window (run ag c0 ((sa, ra) # ins)) \<noteq> []"
    using assms(1) by auto
  have sz: "size_f (snd (run ag c0 ((sa, ra) # ins))) = n"
    using assms(2) by (simp add: size_run init_window)
  have "window (run ag c0 (((sa, ra) # ins) @ [(st, r)])) =
          slide n (window (run ag c0 ((sa, ra) # ins))) (raw st)"
    by (simp only: run_append window_run [of ag _ "[(st, r)]"] sz) simp
  then have c: "window (run ag c0 (((sa, ra) # ins) @ [(st, r)])) =
                  tl (window (run ag c0 ((sa, ra) # ins))) @ [raw st]"
    using ne by (simp add: slide_def)
  have b: "window (run ag c0 [(sa, ra)]) = replicate (nat n) (raw sa)"
    using a [of "[]"] by simp
  have "length (replicate (nat n) (raw sa) @ map (\<lambda>x. raw (fst x)) ins) - nat n = length ins"
    by simp
  then have d: "window (run ag c0 ((sa, ra) # ins)) =
                  (let s = replicate (nat n) (raw sa) @ map (\<lambda>x. raw (fst x)) ins
                   in drop (length s - nat n) s)"
    unfolding Let_def by (simp only: a)
  from d b c show ?thesis by (intro conjI)
qed

theorem window_last_size_witness:
  "(1::int) \<le> 2 \<and> FrameStack_init [] [] 2 False = Inr (fresh 2 False)
   \<and> window (run recorder (fresh 2 False) [(obs 1 1 ''a'', 0)]) = [frame 1, frame 1]
   \<and> window (run recorder (fresh 2 False) [(obs 1 1 ''a'', 0), (obs 2 1 ''b'', 1)]) =
       [frame 1, frame 2]
   \<and> window (run recorder (fresh 2 False)
        [(obs 1 1 ''a'', 0), (obs 2 1 ''b'', 1), (obs 3 1 ''c'', 2)]) = [frame 2, frame 3]"
proof -
  have le: "(1::int) \<le> 2" by simp
  have w: "window (run recorder (fresh 2 False) ((obs 1 1 ''a'', 0) # ins)) =
             (let s = replicate (nat 2) (raw (obs 1 1 ''a'')) @ map (\<lambda>x. raw (fst x)) ins
              in drop (length s - nat 2) s)" for ins
    by (rule window_last_size [OF le init_fresh, THEN conjunct1])
  show ?thesis
    using le w [of "[]"] w [of "[(obs 2 1 ''b'', 1)]"]
      w [of "[(obs 2 1 ''b'', 1), (obs 3 1 ''c'', 2)]"]
    by (simp add: init_fresh obs_def Let_def numeral_2_eq_2)
qed

section \<open>Eager and lazy composition\<close>

text \<open>
  C2. A lazy and an eager frame stack of the same size are fed the same input states
  (agents, rewards and the stores they start in may differ). At every step the lazy
  call hands over a \<^verbatim>\<open>LazyState\<close>, and the eager call hands over exactly the
  tensor that \<^verbatim>\<open>features\<close> returns on that lazy state as its raw; where the
  concatenation raises, the eager call raises the same error that reading the lazy
  features raises.
\<close>

theorem lazy_features_eq_eager_raw:
  assumes "FrameStack_init ha ga n True = Inr ca"
    and "FrameStack_init hb gb n False = Inr cb"
    and "map fst insa = map fst insb"
  shows "snd (snd (act_state (fst (run aga ca insa)) (snd (run aga ca insa)) st)) =
           Inr (LazyState (length (fst (run aga ca insa))) (mask st) (info st))
         \<and> snd (snd (act_state (fst (run agb cb insb)) (snd (run agb cb insb)) st)) =
           (case features (fst (act_state (fst (run aga ca insa)) (snd (run aga ca insa)) st))
                   (LazyState (length (fst (run aga ca insa))) (mask st) (info st)) of
              Inl e \<Rightarrow> Inl e
            | Inr t \<Rightarrow> Inr (State \<lparr>raw = t, mask = mask st, info = info st\<rparr>))"
proof -
  have m: "map (\<lambda>x. raw (fst x)) insa = map (\<lambda>x. raw (fst x)) insb"
    using arg_cong [OF assms(3), of "map raw"] by (simp add: comp_def)
  have l: "snd (snd (act_state (fst (run aga ca insa)) (snd (run aga ca insa)) st)) =
             Inr (LazyState (length (fst (run aga ca insa))) (mask st) (info st))"
    by (simp add: step_result [OF assms(1)])
  have f: "features (fst (act_state (fst (run aga ca insa)) (snd (run aga ca insa)) st))
             (LazyState (length (fst (run aga ca insa))) (mask st) (info st)) =
           torch_cat (windows n (map (\<lambda>x. raw (fst x)) insa @ [raw st]))"
    by (simp add: LazyState_features_def step_store [OF assms(1)])
  have e: "snd (snd (act_state (fst (run agb cb insb)) (snd (run agb cb insb)) st)) =
             (case torch_cat (windows n (map (\<lambda>x. raw (fst x)) insa @ [raw st])) of
                Inl e \<Rightarrow> Inl e
              | Inr t \<Rightarrow> Inr (State \<lparr>raw = t, mask = mask st, info = info st\<rparr>))"
    by (simp add: step_result [OF assms(2)] m)
  show ?thesis by (simp only: l f e)
qed

theorem lazy_features_eq_eager_raw_witness:
  "FrameStack_init [] [] 2 True = Inr (fresh 2 True)
   \<and> FrameStack_init [] [] 2 False = Inr (fresh 2 False)
   \<and> map fst [(obs 1 1 ''a'', 0::int)] = map fst [(obs 1 1 ''a'', 5::int)]
   \<and> features
        (fst (act_state (fst (run recorder (fresh 2 True) [(obs 1 1 ''a'', 0)]))
           (snd (run recorder (fresh 2 True) [(obs 1 1 ''a'', 0)])) (obs 2 0 ''b'')))
        (LazyState 2 (0::int) ''b'') = Inr \<lparr>shape = [2, 2], data = [1, 2, 11, 12]\<rparr>
   \<and> snd (snd (act_state (fst (run recorder (fresh 2 False) [(obs 1 1 ''a'', 5)]))
        (snd (run recorder (fresh 2 False) [(obs 1 1 ''a'', 5)])) (obs 2 0 ''b''))) =
       Inr (State \<lparr>raw = \<lparr>shape = [2, 2], data = [1, 2, 11, 12]\<rparr>, mask = 0, info = ''b''\<rparr>)"
proof -
  have m: "map fst [(obs 1 1 ''a'', 0::int)] = map fst [(obs 1 1 ''a'', 5::int)]" by simp
  have f: "features
        (fst (act_state (fst (run recorder (fresh 2 True) [(obs 1 1 ''a'', 0)]))
           (snd (run recorder (fresh 2 True) [(obs 1 1 ''a'', 0)])) (obs 2 0 ''b'')))
        (LazyState 2 (0::int) ''b'') = Inr \<lparr>shape = [2, 2], data = [1, 2, 11, 12]\<rparr>"
    by (simp add: ev)
  have l: "length (fst (run recorder (fresh 2 True) [(obs 1 1 ''a'', 0)])) = 2"
    by (simp add: ev)
  have e: "snd (snd (act_state (fst (run recorder (fresh 2 False) [(obs 1 1 ''a'', 5)]))
        (snd (run recorder (fresh 2 False) [(obs 1 1 ''a'', 5)])) (obs 2 0 ''b''))) =
       Inr (State \<lparr>raw = \<lparr>shape = [2, 2], data = [1, 2, 11, 12]\<rparr>, mask = 0, info = ''b''\<rparr>)"
    using lazy_features_eq_eager_raw [OF init_fresh [of 2 True] init_fresh [of 2 False] m,
        where aga = recorder and agb = recorder and st = "obs 2 0 ''b''"] f l
    by simp
  show ?thesis by (intro conjI init_fresh m f e)
qed

text \<open>
  C3. The lazy state emitted by a call keeps its value over the next call: reading
  \<^verbatim>\<open>features\<close> (and the length) on it gives the same result in the store after the
  next call as before it. The state holds the reference that \<^verbatim>\<open>self._frames\<close>
  held when it was emitted; the next call rebinds \<^verbatim>\<open>self._frames\<close> to a new
  list and writes to no existing one.
\<close>

theorem lazy_state_snapshot:
  assumes "lazy self"
    and "act ag h self st r = (ha, selfa, resa)"
    and "snd (snd (act_state h self st)) = Inr c"
    and "act ag ha selfa st' r' = (hb, selfb, resb)"
  shows "c = LazyState (length h) (mask st) (info st)
         \<and> frames selfa = length h
         \<and> features hb c = features ha c
         \<and> len hb c = len ha c
         \<and> frames selfb \<noteq> frames selfa"
proof -
  have c: "c = LazyState (length h) (mask st) (info st)"
    using assms(1,3) by (simp add: act_state_result)
  have ha: "ha = fst (act ag h self st r)" and s1: "selfa = fst (snd (act ag h self st r))"
    using assms(2) by simp_all
  have hb: "hb = fst (act ag ha selfa st' r')" and s2: "selfb = fst (snd (act ag ha selfa st' r'))"
    using assms(4) by simp_all
  have l1: "length ha = Suc (length h)" by (simp add: ha length_store_act)
  have old: "hb ! length h = ha ! length h"
    unfolding hb by (rule store_run_step_old) (simp add: l1)
  have f1: "frames selfa = length h" by (simp add: s1 frames_act)
  have f2: "frames selfb = length ha" by (simp add: s2 frames_act)
  show ?thesis
    using c old f1 f2 l1 by (simp add: LazyState_features_def LazyState_len_def)
qed

theorem lazy_state_snapshot_witness:
  "lazy (snd (fresh 2 True))
   \<and> act recorder (fst (fresh 2 True)) (snd (fresh 2 True)) (obs 1 1 ''a'') 0 =
       ([[], [frame 1, frame 1]],
        \<lparr>agent = [(LazyState 1 1 ''a'', 0)], frames = 1, size_f = 2, lazy = True\<rparr>, Inr 42)
   \<and> features [[], [frame 1, frame 1]] (LazyState 1 (1::int) ''a'') =
       Inr \<lparr>shape = [2, 2], data = [1, 1, 11, 11]\<rparr>
   \<and> features [[], [frame 1, frame 1], [frame 1, frame 2]] (LazyState 1 (1::int) ''a'') =
       Inr \<lparr>shape = [2, 2], data = [1, 1, 11, 11]\<rparr>"
proof -
  have a: "lazy (snd (fresh 2 True))" by (simp add: fresh_def)
  have b: "act recorder (fst (fresh 2 True)) (snd (fresh 2 True)) (obs 1 1 ''a'') 0 =
       ([[], [frame 1, frame 1]],
        \<lparr>agent = [(LazyState 1 1 ''a'', 0)], frames = 1, size_f = 2, lazy = True\<rparr>, Inr 42)"
    by (simp add: act_def act_state_def alloc_def recorder_def fresh_def obs_def numeral_2_eq_2)
  have c: "snd (snd (act_state (fst (fresh 2 True)) (snd (fresh 2 True)) (obs 1 1 ''a''))) =
             Inr (LazyState 1 1 ''a'')"
    by (simp add: act_state_def alloc_def fresh_def obs_def)
  have d: "act recorder [[], [frame 1, frame 1]]
        \<lparr>agent = [(LazyState 1 1 ''a'', 0)], frames = 1, size_f = 2, lazy = True\<rparr>
        (obs 2 1 ''b'') 1 =
       ([[], [frame 1, frame 1], [frame 1, frame 2]],
        \<lparr>agent = [(LazyState 1 1 ''a'', 0), (LazyState 2 1 ''b'', 1)], frames = 2,
           size_f = 2, lazy = True\<rparr>, Inr 42)"
    by (simp add: act_def act_state_def alloc_def recorder_def obs_def)
  have f: "features [[], [frame 1, frame 1]] (LazyState 1 (1::int) ''a'') =
       Inr \<lparr>shape = [2, 2], data = [1, 1, 11, 11]\<rparr>"
    by (simp add: ev)
  have k: "features [[], [frame 1, frame 1], [frame 1, frame 2]] (LazyState 1 (1::int) ''a'') =
             features [[], [frame 1, frame 1]] (LazyState 1 (1::int) ''a'')"
    using lazy_state_snapshot [OF a b c d] by (simp add: fresh_def)
  show ?thesis
    using a b f k by simp
qed

section \<open>Delegation to the wrapped agent\<close>

text \<open>
  C5. Whenever a composite state is built, \<^verbatim>\<open>act\<close> returns exactly what the
  wrapped agent returns on the agent object held by the frame stack, the store after
  the window update, that composite state and the reward as passed in; the agent's
  next state is kept.
\<close>

theorem act_delegates:
  assumes "snd (snd (act_state h self st)) = Inr c"
  shows "snd (snd (act ag h self st reward)) =
           Inr (snd (ag (agent self) (fst (act_state h self st)) c reward))
         \<and> agent (fst (snd (act ag h self st reward))) =
           fst (ag (agent self) (fst (act_state h self st)) c reward)"
  using assms by (simp add: act_result act_agent)

theorem act_delegates_witness:
  "snd (snd (act_state (fst (fresh 2 False)) (snd (fresh 2 False)) (obs 1 1 ''a''))) =
     Inr (State \<lparr>raw = \<lparr>shape = [2, 2], data = [1, 1, 11, 11]\<rparr>, mask = 1, info = ''a''\<rparr>)
   \<and> snd (snd (act recorder (fst (fresh 2 False)) (snd (fresh 2 False)) (obs 1 1 ''a'') 7)) =
       Inr 42
   \<and> agent (fst (snd (act recorder (fst (fresh 2 False)) (snd (fresh 2 False))
        (obs 1 1 ''a'') 7))) =
       [(State \<lparr>raw = \<lparr>shape = [2, 2], data = [1, 1, 11, 11]\<rparr>, mask = 1, info = ''a''\<rparr>, 7)]"
proof -
  have c: "snd (snd (act_state (fst (fresh 2 False)) (snd (fresh 2 False)) (obs 1 1 ''a''))) =
     Inr (State \<lparr>raw = \<lparr>shape = [2, 2], data = [1, 1, 11, 11]\<rparr>, mask = 1, info = ''a''\<rparr>)"
    by (simp add: ev)
  show ?thesis
    using act_delegates [OF c, where ag = recorder and reward = 7] c
    by (simp add: recorder_def) (simp add: fresh_def)
qed

text \<open>
  C6. The composite state of a call, eager or lazy, carries the mask and the info of
  the incoming state.
\<close>

theorem composite_mask_info:
  assumes "snd (snd (act_state h self st)) = Inr c"
  shows "mask_of c = mask st \<and> info_of c = info st"
  using assms by (auto simp: act_state_result split: if_splits sum.splits)

theorem composite_mask_info_witness:
  "snd (snd (act_state (fst (fresh 2 False)) (snd (fresh 2 False)) (obs 1 0 ''a''))) =
     Inr (State \<lparr>raw = \<lparr>shape = [2, 2], data = [1, 1, 11, 11]\<rparr>, mask = 0, info = ''a''\<rparr>)
   \<and> mask_of (State \<lparr>raw = \<lparr>shape = [2, 2], data = [1, 1, 11, 11]\<rparr>, mask = 0, info = ''a''\<rparr>) =
       mask (obs 1 0 ''a'')
   \<and> info_of (State \<lparr>raw = \<lparr>shape = [2, 2], data = [1, 1, 11, 11]\<rparr>, mask = 0::int,
         info = ''a''\<rparr>) =
       info (obs 1 0 ''a'')
   \<and> snd (snd (act_state (fst (fresh 2 True)) (snd (fresh 2 True)) (obs 1 0 ''a''))) =
       Inr (LazyState 1 0 ''a'')
   \<and> mask_of (LazyState 1 0 ''a'' :: (int, int, string) composite) = mask (obs 1 0 ''a'')
   \<and> info_of (LazyState 1 0 ''a'' :: (int, int, string) composite) = info (obs 1 0 ''a'')"
proof -
  have e: "snd (snd (act_state (fst (fresh 2 False)) (snd (fresh 2 False)) (obs 1 0 ''a''))) =
     Inr (State \<lparr>raw = \<lparr>shape = [2, 2], data = [1, 1, 11, 11]\<rparr>, mask = 0, info = ''a''\<rparr>)"
    by (simp add: ev)
  have l: "snd (snd (act_state (fst (fresh 2 True)) (snd (fresh 2 True)) (obs 1 0 ''a''))) =
       Inr (LazyState 1 0 ''a'')"
    by (simp add: ev)
  show ?thesis
    using composite_mask_info [OF e] composite_mask_info [OF l] e l by simp
qed

section \<open>Episode boundaries\<close>

text \<open>
  C9. The window depends on the raw observations only. Two sequences of calls whose
  states agree on raw (masks, infos, rewards and agents may differ) leave the same
  window and hand the agent the same stacked tensor at the next call; a call never
  consults the mask, its window is the slide of the previous one, so a terminal mask
  resets nothing.
\<close>

theorem window_independent_of_mask:
  assumes "FrameStack_init ha ga n lz = Inr ca"
    and "FrameStack_init hb gb n lz = Inr cb"
    and "map (\<lambda>x. raw (fst x)) insa = map (\<lambda>x. raw (fst x)) insb"
    and "raw sta = raw stb"
  shows "window (run aga ca insa) = window (run agb cb insb)
         \<and> stacked (run aga ca insa) sta = stacked (run agb cb insb) stb
         \<and> window (run aga ca (insa @ [(sta, ra)])) =
             slide n (window (run aga ca insa)) (raw sta)"
proof -
  have a: "window (run aga ca insa) = window (run agb cb insb)"
    by (simp add: window_run_init [OF assms(1)] window_run_init [OF assms(2)] assms(3))
  have b: "stacked (run aga ca insa) sta = stacked (run agb cb insb) stb"
    by (simp add: stacked_run [OF assms(1)] stacked_run [OF assms(2)] assms(3,4))
  have c: "window (run aga ca (insa @ [(sta, ra)])) =
             slide n (window (run aga ca insa)) (raw sta)"
    by (simp add: window_run_init [OF assms(1)] windows_snoc)
  from a b c show ?thesis by (intro conjI)
qed

theorem window_independent_of_mask_witness:
  "FrameStack_init [] [] 2 False = Inr (fresh 2 False)
   \<and> map (\<lambda>x. raw (fst x)) [(obs 1 0 ''a'', 0::int)] =
       map (\<lambda>x. raw (fst x)) [(obs 1 1 ''a'', 0::int)]
   \<and> raw (obs 2 1 ''b'') = raw (obs 2 1 ''b'')
   \<and> window (run recorder (fresh 2 False) [(obs 1 1 ''a'', 0)]) = [frame 1, frame 1]
   \<and> window (run recorder (fresh 2 False) [(obs 1 0 ''a'', 0)]) = [frame 1, frame 1]
   \<and> stacked (run recorder (fresh 2 False) [(obs 1 1 ''a'', 0)]) (obs 2 1 ''b'') =
       Inr \<lparr>shape = [2, 2], data = [1, 2, 11, 12]\<rparr>
   \<and> stacked (run recorder (fresh 2 False) [(obs 1 0 ''a'', 0)]) (obs 2 1 ''b'') =
       Inr \<lparr>shape = [2, 2], data = [1, 2, 11, 12]\<rparr>
   \<and> window (run recorder (fresh 2 False) ([(obs 1 0 ''a'', 0)] @ [(obs 2 1 ''b'', 0)])) =
       [frame 1, frame 2]"
proof -
  have m: "map (\<lambda>x. raw (fst x)) [(obs 1 0 ''a'', 0::int)] =
       map (\<lambda>x. raw (fst x)) [(obs 1 1 ''a'', 0::int)]"
    by simp
  have w: "window (run recorder (fresh 2 False) [(obs 1 1 ''a'', 0)]) = [frame 1, frame 1]"
    by (simp add: ev)
  have s: "stacked (run recorder (fresh 2 False) [(obs 1 1 ''a'', 0)]) (obs 2 1 ''b'') =
       Inr \<lparr>shape = [2, 2], data = [1, 2, 11, 12]\<rparr>"
    by (simp add: ev)
  note t = window_independent_of_mask [OF init_fresh [of 2 False] init_fresh [of 2 False] m refl,
        where aga = recorder and agb = recorder and sta = "obs 2 1 ''b''" and ra = 0]
  have w': "window (run recorder (fresh 2 False) [(obs 1 0 ''a'', 0)]) = [frame 1, frame 1]"
    using t w by simp
  have s': "stacked (run recorder (fresh 2 False) [(obs 1 0 ''a'', 0)]) (obs 2 1 ''b'') =
       Inr \<lparr>shape = [2, 2], data = [1, 2, 11, 12]\<rparr>"
    using t s by simp
  have n: "window (run recorder (fresh 2 False) ([(obs 1 0 ''a'', 0)] @ [(obs 2 1 ''b'', 0)])) =
       [frame 1, frame 2]"
    using t w' by (simp add: slide_def)
  show ?thesis by (intro conjI init_fresh m refl w w' s s' n)
qed

section \<open>Window fill and channel count\<close>

text \<open>
  C7. With a size of at least 1 and observations that share one shape with a channel
  dimension, the window holds exactly \<open>size\<close> frames after every call from the first
  on, and the eager composite state has the observations' shape with dimension 1
  multiplied by \<open>size\<close>.
\<close>

theorem window_fill:
  assumes "1 \<le> n" and "FrameStack_init h g n lz = Inr c0"
    and "\<forall>x \<in> set ins. shape (raw (fst x)) = s" and "shape (raw st) = s"
    and "2 \<le> length s"
  shows "length (window (run ag c0 (ins @ [(st, r)]))) = nat n
         \<and> (\<not> lz \<longrightarrow>
              (\<exists>t. snd (snd (act_state (fst (run ag c0 ins)) (snd (run ag c0 ins)) st)) =
                     Inr (State \<lparr>raw = t, mask = mask st, info = info st\<rparr>)
                   \<and> shape t = s[1 := nat n * (s ! 1)]
                   \<and> shape t ! 1 = nat n * (s ! 1)))"
proof -
  let ?W = "windows n (map (\<lambda>x. raw (fst x)) ins @ [raw st])"
  have len: "length ?W = nat n" by (simp add: windows_length)
  have ne: "?W \<noteq> []" using len assms(1) by auto
  have "set ?W \<subseteq> set (map (\<lambda>x. raw (fst x)) ins @ [raw st])" by (rule windows_set)
  then have sh: "\<forall>t \<in> set ?W. shape t = s" using assms(3,4) by auto
  obtain t where t: "torch_cat ?W = Inr t" "shape t = s[1 := length ?W * (s ! 1)]"
    using torch_cat_same_shape [OF ne sh assms(5)] by blast
  have a: "length (window (run ag c0 (ins @ [(st, r)]))) = nat n"
    using len by (simp add: window_run_init [OF assms(2)])
  have b: "snd (snd (act_state (fst (run ag c0 ins)) (snd (run ag c0 ins)) st)) =
             Inr (State \<lparr>raw = t, mask = mask st, info = info st\<rparr>)" if "\<not> lz"
    using that t(1) by (simp add: step_result [OF assms(2)])
  have c: "shape t ! 1 = nat n * (s ! 1)"
    using t(2) len assms(5) by simp
  show ?thesis using a b c t(2) len by auto
qed

theorem window_fill_witness:
  "(1::int) \<le> 2 \<and> FrameStack_init [] [] 2 False = Inr (fresh 2 False)
   \<and> shape (raw (obs 1 1 ''a'')) = [2, 1] \<and> shape (raw (obs 2 1 ''b'')) = [2, 1]
   \<and> 2 \<le> length [2::nat, 1]
   \<and> length (window (run recorder (fresh 2 False) ([(obs 1 1 ''a'', 0)] @ [(obs 2 1 ''b'', 0)])))
       = 2
   \<and> snd (snd (act_state (fst (run recorder (fresh 2 False) [(obs 1 1 ''a'', 0)]))
        (snd (run recorder (fresh 2 False) [(obs 1 1 ''a'', 0)])) (obs 2 1 ''b''))) =
       Inr (State \<lparr>raw = \<lparr>shape = [2, 2], data = [1, 2, 11, 12]\<rparr>, mask = 1, info = ''b''\<rparr>)"
proof -
  have le: "(1::int) \<le> 2" by simp
  have sa: "\<forall>x \<in> set [(obs 1 1 ''a'', 0::int)]. shape (raw (fst x)) = [2, 1]" by simp
  have sb: "shape (raw (obs 2 1 ''b'')) = [2, 1]" by simp
  have l2: "2 \<le> length [2::nat, 1]" by simp
  note t = window_fill [OF le init_fresh [of 2 False] sa sb l2,
      where ag = recorder and r = 0]
  have a: "length (window (run recorder (fresh 2 False)
             ([(obs 1 1 ''a'', 0)] @ [(obs 2 1 ''b'', 0)]))) = 2"
    using t by simp
  have "\<exists>t. snd (snd (act_state (fst (run recorder (fresh 2 False) [(obs 1 1 ''a'', 0)]))
        (snd (run recorder (fresh 2 False) [(obs 1 1 ''a'', 0)])) (obs 2 1 ''b''))) =
       Inr (State \<lparr>raw = t, mask = 1, info = ''b''\<rparr>) \<and> shape t = [2, 2]"
    using t by auto
  moreover have "snd (snd (act_state (fst (run recorder (fresh 2 False) [(obs 1 1 ''a'', 0)]))
        (snd (run recorder (fresh 2 False) [(obs 1 1 ''a'', 0)])) (obs 2 1 ''b''))) =
       Inr (State \<lparr>raw = \<lparr>shape = [2, 2], data = [1, 2, 11, 12]\<rparr>, mask = 1, info = ''b''\<rparr>)"
    by (simp add: ev)
  ultimately show ?thesis using a by (simp add: init_fresh)
qed

section \<open>Length of a composite state\<close>

text \<open>
  C4, as amended. For a size of at least 1, the length of the lazy composite state is
  the batch size of the first, oldest frame of the window (the error of a 0-d tensor
  if that frame has no dimension). Whenever an eager composite state is built from a
  window that holds no frame of shape \<open>(0,)\<close>, its length is that same number.
  When all observations share one shape with a batch dimension, both lengths are that
  shape's batch size, whatever the size, and an eager composite state exists when the
  shape has a channel dimension. The eager length is \<open>State_len\<close>, modelled from the
  spec.
\<close>

theorem len_is_first_frame_batch_size:
  assumes "1 \<le> n"
    and "FrameStack_init ha ga n True = Inr cl"
    and "FrameStack_init hb gb n False = Inr ce"
  shows "(\<exists>c. snd (snd (act_state (fst (run aga cl ins)) (snd (run aga cl ins)) st)) = Inr c
            \<and> len (fst (act_state (fst (run aga cl ins)) (snd (run aga cl ins)) st)) c =
                tensor_len (hd (window (run aga cl (ins @ [(st, ra)])))))
         \<and> (\<forall>c. snd (snd (act_state (fst (run agb ce ins)) (snd (run agb ce ins)) st)) = Inr c
              \<longrightarrow> (\<forall>f \<in> set (window (run agb ce (ins @ [(st, rb)]))). shape f \<noteq> [0])
              \<longrightarrow> len (fst (act_state (fst (run agb ce ins)) (snd (run agb ce ins)) st)) c =
                    tensor_len (hd (window (run aga cl (ins @ [(st, ra)])))))
         \<and> ((\<forall>x \<in> set ins. shape (raw (fst x)) = s) \<and> shape (raw st) = s \<and> s \<noteq> []
              \<longrightarrow> tensor_len (hd (window (run aga cl (ins @ [(st, ra)])))) = Inr (hd s)
                  \<and> (\<forall>c. snd (snd (act_state (fst (run agb ce ins)) (snd (run agb ce ins)) st)) =
                            Inr c
                       \<longrightarrow> len (fst (act_state (fst (run agb ce ins)) (snd (run agb ce ins)) st)) c
                            = Inr (hd s))
                  \<and> (2 \<le> length s \<longrightarrow>
                       (\<exists>c. snd (snd (act_state (fst (run agb ce ins)) (snd (run agb ce ins)) st))
                              = Inr c)))"
proof -
  let ?W = "windows n (map (\<lambda>x. raw (fst x)) ins @ [raw st])"
  let ?L = "act_state (fst (run aga cl ins)) (snd (run aga cl ins)) st"
  let ?E = "act_state (fst (run agb ce ins)) (snd (run agb ce ins)) st"
  have wl: "window (run aga cl (ins @ [(st, ra)])) = ?W"
    by (rule window_run_snoc [OF assms(2)])
  have we: "window (run agb ce (ins @ [(st, rb)])) = ?W"
    by (rule window_run_snoc [OF assms(3)])
  have len: "length ?W = nat n" by (simp add: windows_length)
  have ne: "?W \<noteq> []" using len assms(1) by auto
  have a: "\<exists>c. snd (snd ?L) = Inr c \<and> len (fst ?L) c = tensor_len (hd ?W)"
    using ne
    by (cases ?W) (simp_all add: step_result [OF assms(2)] LazyState_len_def
        step_store [OF assms(2)])
  have b: "len (fst ?E) c = tensor_len (hd ?W)"
    if "snd (snd ?E) = Inr c" and "\<forall>f \<in> set ?W. shape f \<noteq> [0]" for c
  proof -
    from that(1) obtain t where t: "torch_cat ?W = Inr t"
      and c: "c = State \<lparr>raw = t, mask = mask st, info = info st\<rparr>"
      by (auto simp: step_result [OF assms(3)] split: sum.splits)
    have "tensor_len t = tensor_len (hd ?W)" by (rule torch_cat_len_first [OF t that(2)])
    then show ?thesis by (simp add: c State_len_def)
  qed
  have c: "tensor_len (hd ?W) = Inr (hd s)
           \<and> (\<forall>c. snd (snd ?E) = Inr c \<longrightarrow> len (fst ?E) c = Inr (hd s))
           \<and> (2 \<le> length s \<longrightarrow> (\<exists>c. snd (snd ?E) = Inr c))"
    if sh0: "\<forall>x \<in> set ins. shape (raw (fst x)) = s" "shape (raw st) = s" and sne: "s \<noteq> []"
  proof -
    have "set ?W \<subseteq> set (map (\<lambda>x. raw (fst x)) ins @ [raw st])" by (rule windows_set)
    then have sh: "\<forall>t \<in> set ?W. shape t = s" using sh0 by auto
    have c1: "tensor_len (hd ?W) = Inr (hd s)"
      using ne sh sne by (cases ?W; cases s) (auto simp: tensor_len_def)
    have c2: "len (fst ?E) c = Inr (hd s)" if "snd (snd ?E) = Inr c" for c
    proof -
      from that obtain t where t: "torch_cat ?W = Inr t"
        and c: "c = State \<lparr>raw = t, mask = mask st, info = info st\<rparr>"
        by (auto simp: step_result [OF assms(3)] split: sum.splits)
      have "tensor_len t = Inr (hd s)" by (rule torch_cat_len [OF t sh sne])
      then show ?thesis by (simp add: c State_len_def)
    qed
    have c3: "\<exists>c. snd (snd ?E) = Inr c" if "2 \<le> length s"
      using torch_cat_same_shape [OF ne sh that]
      by (auto simp: step_result [OF assms(3)])
    from c1 c2 c3 show ?thesis by blast
  qed
  show ?thesis
    unfolding wl we using a b c by blast
qed

theorem len_is_first_frame_batch_size_witness:
  "(1::int) \<le> 2 \<and> FrameStack_init [] [] 2 True = Inr (fresh 2 True)
   \<and> FrameStack_init [] [] 2 False = Inr (fresh 2 False)
   \<and> snd (snd (act_state (fst (run recorder (fresh 2 True) [(obs 1 1 ''a'', 0)]))
        (snd (run recorder (fresh 2 True) [(obs 1 1 ''a'', 0)]))
        (obs_of (frame3 5) 1 ''c''))) = Inr (LazyState 2 1 ''c'')
   \<and> len (fst (act_state (fst (run recorder (fresh 2 True) [(obs 1 1 ''a'', 0)]))
        (snd (run recorder (fresh 2 True) [(obs 1 1 ''a'', 0)]))
        (obs_of (frame3 5) 1 ''c'')))
        (LazyState 2 (1::int) ''c'') = Inr 2
   \<and> shape (raw (obs 1 1 ''a'')) = [2, 1] \<and> shape (raw (obs 2 1 ''b'')) = [2, 1]
   \<and> [2::nat, 1] \<noteq> []
   \<and> snd (snd (act_state (fst (run recorder (fresh 2 True) [(obs 1 1 ''a'', 0)]))
        (snd (run recorder (fresh 2 True) [(obs 1 1 ''a'', 0)])) (obs 2 1 ''b''))) =
       Inr (LazyState 2 1 ''b'')
   \<and> len (fst (act_state (fst (run recorder (fresh 2 True) [(obs 1 1 ''a'', 0)]))
        (snd (run recorder (fresh 2 True) [(obs 1 1 ''a'', 0)])) (obs 2 1 ''b'')))
        (LazyState 2 (1::int) ''b'') = Inr (hd [2, 1])
   \<and> snd (snd (act_state (fst (run recorder (fresh 2 False) [(obs 1 1 ''a'', 0)]))
        (snd (run recorder (fresh 2 False) [(obs 1 1 ''a'', 0)])) (obs 2 1 ''b''))) =
       Inr (State \<lparr>raw = \<lparr>shape = [2, 2], data = [1, 2, 11, 12]\<rparr>, mask = 1, info = ''b''\<rparr>)
   \<and> len (fst (act_state (fst (run recorder (fresh 2 False) [(obs 1 1 ''a'', 0)]))
        (snd (run recorder (fresh 2 False) [(obs 1 1 ''a'', 0)])) (obs 2 1 ''b'')))
        (State \<lparr>raw = \<lparr>shape = [2, 2], data = [1, 2, 11, 12]\<rparr>, mask = 1::int,
           info = ''b''\<rparr>) =
       Inr (hd [2, 1])"
proof -
  have le: "(1::int) \<le> 2" by simp
  have sa: "shape (raw (obs 1 1 ''a'')) = [2, 1]" by simp
  have sb: "shape (raw (obs 2 1 ''b'')) = [2, 1]" by simp
  have ne: "[2::nat, 1] \<noteq> []" by simp
  note t = len_is_first_frame_batch_size [OF le init_fresh [of 2 True] init_fresh [of 2 False],
      where aga = recorder and agb = recorder and ins = "[(obs 1 1 ''a'', 0)]"
        and ra = 0 and rb = 0]
  have w3: "window (run recorder (fresh 2 True)
              [(obs 1 1 ''a'', 0), ((obs_of (frame3 5) 1 ''c''), 0)]) =
            [frame 1, frame3 5]"
    by (simp add: ev2)
  have l3: "snd (snd (act_state (fst (run recorder (fresh 2 True) [(obs 1 1 ''a'', 0)]))
        (snd (run recorder (fresh 2 True) [(obs 1 1 ''a'', 0)]))
        (obs_of (frame3 5) 1 ''c''))) = Inr (LazyState 2 1 ''c'')"
    by (simp add: ev2)
  have ll3: "len (fst (act_state (fst (run recorder (fresh 2 True) [(obs 1 1 ''a'', 0)]))
        (snd (run recorder (fresh 2 True) [(obs 1 1 ''a'', 0)]))
        (obs_of (frame3 5) 1 ''c'')))
        (LazyState 2 (1::int) ''c'') = Inr 2"
    using t [where st = "obs_of (frame3 5) 1 ''c''", THEN conjunct1] l3
    by (auto simp: w3 tensor_len_def)
  have l: "snd (snd (act_state (fst (run recorder (fresh 2 True) [(obs 1 1 ''a'', 0)]))
        (snd (run recorder (fresh 2 True) [(obs 1 1 ''a'', 0)])) (obs 2 1 ''b''))) =
       Inr (LazyState 2 1 ''b'')"
    by (simp add: ev)
  have e: "snd (snd (act_state (fst (run recorder (fresh 2 False) [(obs 1 1 ''a'', 0)]))
        (snd (run recorder (fresh 2 False) [(obs 1 1 ''a'', 0)])) (obs 2 1 ''b''))) =
       Inr (State \<lparr>raw = \<lparr>shape = [2, 2], data = [1, 2, 11, 12]\<rparr>, mask = 1, info = ''b''\<rparr>)"
    by (simp add: ev)
  note u = t [where st = "obs 2 1 ''b''" and s = "[2, 1]"]
  have hyp: "(\<forall>x \<in> set [(obs 1 1 ''a'', 0::int)]. shape (raw (fst x)) = [2, 1])
      \<and> shape (raw (obs 2 1 ''b'')) = [2, 1] \<and> [2::nat, 1] \<noteq> []"
    by simp
  have ll: "len (fst (act_state (fst (run recorder (fresh 2 True) [(obs 1 1 ''a'', 0)]))
        (snd (run recorder (fresh 2 True) [(obs 1 1 ''a'', 0)])) (obs 2 1 ''b'')))
        (LazyState 2 (1::int) ''b'') = Inr (hd [2, 1])"
    using u [THEN conjunct1] u [THEN conjunct2, THEN conjunct2, rule_format, OF hyp] l
    by auto
  have el: "len (fst (act_state (fst (run recorder (fresh 2 False) [(obs 1 1 ''a'', 0)]))
        (snd (run recorder (fresh 2 False) [(obs 1 1 ''a'', 0)])) (obs 2 1 ''b'')))
        (State \<lparr>raw = \<lparr>shape = [2, 2], data = [1, 2, 11, 12]\<rparr>, mask = 1::int,
           info = ''b''\<rparr>) =
       Inr (hd [2, 1])"
    using u [THEN conjunct2, THEN conjunct2, rule_format, OF hyp] e
    by auto
  show ?thesis by (intro conjI le init_fresh l3 ll3 sa sb ne l ll e el)
qed

text \<open>
  Without these conditions the length is not the batch size of an observation in both
  representations: with size 0 the lazy state is handed over and its length raises,
  and after a frame of shape \<open>(0,)\<close> followed by a frame with a batch of two, the
  eager length is 2 and the lazy length is 0.
\<close>

theorem len_fails_or_differs:
  "snd (snd (act_state (fst (fresh 0 True)) (snd (fresh 0 True)) (obs 1 1 ''a''))) =
     Inr (LazyState 1 1 ''a'')
   \<and> len (fst (act_state (fst (fresh 0 True)) (snd (fresh 0 True)) (obs 1 1 ''a'')))
        (LazyState 1 (1::int) ''a'') = Inl IndexError
   \<and> snd (snd (act_state
        (fst (run recorder (fresh 2 True) [(obs_of empty_frame 1 ''e'', 0)]))
        (snd (run recorder (fresh 2 True) [(obs_of empty_frame 1 ''e'', 0)]))
        (obs 2 1 ''b''))) = Inr (LazyState 2 1 ''b'')
   \<and> len (fst (act_state
        (fst (run recorder (fresh 2 True) [(obs_of empty_frame 1 ''e'', 0)]))
        (snd (run recorder (fresh 2 True) [(obs_of empty_frame 1 ''e'', 0)]))
        (obs 2 1 ''b''))) (LazyState 2 (1::int) ''b'') = Inr 0
   \<and> snd (snd (act_state
        (fst (run recorder (fresh 2 False) [(obs_of empty_frame 1 ''e'', 0)]))
        (snd (run recorder (fresh 2 False) [(obs_of empty_frame 1 ''e'', 0)]))
        (obs 2 1 ''b''))) = Inr (State (obs 2 1 ''b''))
   \<and> len (fst (act_state
        (fst (run recorder (fresh 2 False) [(obs_of empty_frame 1 ''e'', 0)]))
        (snd (run recorder (fresh 2 False) [(obs_of empty_frame 1 ''e'', 0)]))
        (obs 2 1 ''b''))) (State (obs 2 1 ''b'')) = Inr 2"
  by (simp add: ev2)

section \<open>Window size one\<close>

text \<open>
  C10. An eager frame stack of size 1 hands the agent the concatenation of the
  one-element list of the current observation, on the first call and on every later
  one. For a well-formed tensor every composite state it builds is the incoming state
  itself, and it builds one whenever the observation has a channel dimension.
\<close>

theorem size_one_identity:
  assumes "FrameStack_init h g 1 False = Inr c0" and "valid_tensor (raw st)"
  shows "snd (snd (act_state (fst (run ag c0 ins)) (snd (run ag c0 ins)) st)) =
           (case torch_cat [raw st] of
              Inl e \<Rightarrow> Inl e
            | Inr t \<Rightarrow> Inr (State \<lparr>raw = t, mask = mask st, info = info st\<rparr>))
         \<and> (\<forall>c. snd (snd (act_state (fst (run ag c0 ins)) (snd (run ag c0 ins)) st)) = Inr c
              \<longrightarrow> c = State st)
         \<and> (2 \<le> length (shape (raw st)) \<longrightarrow>
              snd (snd (act_state (fst (run ag c0 ins)) (snd (run ag c0 ins)) st)) =
                Inr (State st))"
proof -
  have a: "snd (snd (act_state (fst (run ag c0 ins)) (snd (run ag c0 ins)) st)) =
           (case torch_cat [raw st] of
              Inl e \<Rightarrow> Inl e
            | Inr t \<Rightarrow> Inr (State \<lparr>raw = t, mask = mask st, info = info st\<rparr>))"
    by (simp add: step_result [OF assms(1)] windows_one)
  have b: "c = State st" if "torch_cat [raw st] = Inr t"
    and "c = State \<lparr>raw = t, mask = mask st, info = info st\<rparr>" for c t
    using torch_cat_single_ok [OF assms(2) that(1)] that(2) by simp
  have c: "torch_cat [raw st] = Inr (raw st)" if "2 \<le> length (shape (raw st))"
    by (rule torch_cat_single [OF assms(2) that])
  show ?thesis
    unfolding a using b c by (auto split: sum.splits)
qed

theorem size_one_identity_witness:
  "FrameStack_init [] [] 1 False = Inr (fresh 1 False)
   \<and> valid_tensor (raw (obs 2 1 ''b''))
   \<and> 2 \<le> length (shape (raw (obs 2 1 ''b'')))
   \<and> snd (snd (act_state (fst (run recorder (fresh 1 False) [(obs 1 1 ''a'', 0)]))
        (snd (run recorder (fresh 1 False) [(obs 1 1 ''a'', 0)])) (obs 2 1 ''b''))) =
       Inr (State (obs 2 1 ''b''))
   \<and> snd (snd (act_state (fst (run recorder (fresh 1 False) []))
        (snd (run recorder (fresh 1 False) [])) (obs 2 1 ''b''))) =
       Inr (State (obs 2 1 ''b''))"
proof -
  have v: "valid_tensor (raw (obs 2 1 ''b''))" by simp
  have l: "2 \<le> length (shape (raw (obs 2 1 ''b'')))" by simp
  note t = size_one_identity [OF init_fresh [of 1 False] v, where ag = recorder,
      THEN conjunct2, THEN conjunct2, rule_format, OF l]
  show ?thesis by (intro conjI init_fresh v l t)
qed

section \<open>Non-positive window size\<close>




end
